theory Spec2Isabelle
  imports Main
begin

section \<open>The bot runtime of \<^verbatim>\<open>server/bot_runtime.py\<close>\<close>

text \<open>
  \<^verbatim>\<open>BotRuntime\<close> supervises one background thread. Every read and write of its fields
  happens inside \<^verbatim>\<open>with self._lock\<close>, so each locked region is one atomic step of the
  model and the lock itself carries no state between steps. The callers of
  \<^verbatim>\<open>start\<close>, \<^verbatim>\<open>stop\<close> and \<^verbatim>\<open>status\<close> and the worker threads are interleaved by a
  schedule: a list of events, each of which runs one atomic step.
\<close>

subsection \<open>Status values\<close>

text \<open>
  \<^verbatim>\<open>BotStatus\<close> is a frozen dataclass; \<^verbatim>\<open>state\<close> is a plain \<^verbatim>\<open>str\<close> in the source.
\<close>

record BotStatus =
  running :: bool
  state :: string
  detail :: string

subsection \<open>Exceptions and their \<^verbatim>\<open>repr\<close>\<close>

text \<open>
  The worker stores \<^verbatim>\<open>repr(e)\<close> of the exception it caught. The builtin \<^verbatim>\<open>repr\<close> calls
  the \<^verbatim>\<open>__repr__\<close> of the exception's class, so it may return any string, the empty one
  included, and it may raise. An exception is modelled by the name of its class, its
  \<^verbatim>\<open>args\<close>, whether the class derives from \<^verbatim>\<open>Exception\<close> (\<^verbatim>\<open>SystemExit\<close>,
  \<^verbatim>\<open>KeyboardInterrupt\<close> and \<^verbatim>\<open>GeneratorExit\<close> do not), and its \<^verbatim>\<open>__repr__\<close>: the one
  inherited from \<^verbatim>\<open>BaseException\<close>, or one of the class's own, given by what it does
  (return a string, or raise). An argument is a string of code points below 256, an
  integer, or any other object, given by what its \<^verbatim>\<open>repr\<close> does. A result \<open>None\<close> means
  that \<^verbatim>\<open>repr\<close> raised.
\<close>

datatype py_value = PyStr string | PyInt int | PyObj "string option"

datatype repr_method = Inherited | ReprReturns string | ReprRaises

datatype py_exception =
  PyException (exc_class: string) (exc_args: "py_value list") (derives_Exception: bool)
    (exc_repr: repr_method)

definition hexdigits :: string where
  "hexdigits = ''0123456789abcdef''"

definition hex2 :: "nat \<Rightarrow> string" where
  "hex2 n = [hexdigits ! (n div 16 mod 16), hexdigits ! (n mod 16)]"

definition is_printable :: "char \<Rightarrow> bool" where
  "is_printable c =
     (let n = (of_char c :: nat)
      in (32 \<le> n \<and> n < 127) \<or> (161 \<le> n \<and> n \<noteq> 173))"

definition escape_char :: "char \<Rightarrow> char \<Rightarrow> string" where
  "escape_char q c =
     (if c = q \<or> c = CHR 0x5C then [CHR 0x5C, c]
      else if c = CHR 0x09 then [CHR 0x5C, CHR ''t'']
      else if c = CHR 0x0A then [CHR 0x5C, CHR ''n'']
      else if c = CHR 0x0D then [CHR 0x5C, CHR ''r'']
      else if is_printable c then [c]
      else CHR 0x5C # CHR ''x'' # hex2 (of_char c))"

definition str_repr :: "string \<Rightarrow> string" where
  "str_repr s =
     (let q = (if CHR 0x27 \<in> set s \<and> CHR 0x22 \<notin> set s then CHR 0x22 else CHR 0x27)
      in q # concat (map (escape_char q) s) @ [q])"

fun nat_repr :: "nat \<Rightarrow> string" where
  "nat_repr n =
     (if n < 10 then [hexdigits ! n] else nat_repr (n div 10) @ [hexdigits ! (n mod 10)])"

declare nat_repr.simps [simp del]

text \<open>
  Converting an integer of more than 4300 decimal digits to a string raises
  \<^verbatim>\<open>ValueError\<close> (the default of \<^verbatim>\<open>sys.get_int_max_str_digits()\<close>).
\<close>

definition max_str_digits :: nat where
  "max_str_digits = 4300"

definition int_repr :: "int \<Rightarrow> string option" where
  "int_repr i =
     (let ds = nat_repr (nat \<bar>i\<bar>)
      in if max_str_digits < length ds then None
         else Some (if i < 0 then CHR ''-'' # ds else ds))"

fun value_repr :: "py_value \<Rightarrow> string option" where
  "value_repr (PyStr s) = Some (str_repr s)"
| "value_repr (PyInt i) = int_repr i"
| "value_repr (PyObj r) = r"

fun join_reprs :: "py_value list \<Rightarrow> string option" where
  "join_reprs [] = Some []"
| "join_reprs [x] = value_repr x"
| "join_reprs (x # y # ys) =
     (case value_repr x of
        None \<Rightarrow> None
      | Some a \<Rightarrow>
          (case join_reprs (y # ys) of
             None \<Rightarrow> None
           | Some b \<Rightarrow> Some (a @ '', '' @ b)))"

definition tuple_repr :: "py_value list \<Rightarrow> string option" where
  "tuple_repr xs =
     (case xs of
        [x] \<Rightarrow> map_option (\<lambda>a. ''('' @ a @ '',)'') (value_repr x)
      | _ \<Rightarrow> map_option (\<lambda>a. ''('' @ a @ '')'') (join_reprs xs))"

text \<open>
  \<^verbatim>\<open>BaseException.__repr__\<close>: the class name followed by the argument in parentheses when
  there is one argument, and by the \<^verbatim>\<open>repr\<close> of the argument tuple otherwise.
\<close>

definition base_repr :: "py_exception \<Rightarrow> string option" where
  "base_repr e =
     (case exc_args e of
        [x] \<Rightarrow> map_option (\<lambda>a. exc_class e @ ''('' @ a @ '')'') (value_repr x)
      | xs \<Rightarrow> map_option (\<lambda>a. exc_class e @ a) (tuple_repr xs))"

definition repr :: "py_exception \<Rightarrow> string option" where
  "repr e =
     (case exc_repr e of
        Inherited \<Rightarrow> base_repr e
      | ReprReturns r \<Rightarrow> Some r
      | ReprRaises \<Rightarrow> None)"

subsection \<open>The task body\<close>

text \<open>
  \<^verbatim>\<open>_run_bot(stop_event)\<close> is the task body. It runs outside the lock and may read the
  event any number of times, so it is a parameter of the model: a local state and a
  function that, given the local state and what \<^verbatim>\<open>stop_event.is_set()\<close> returns now,
  either goes on with a new local state or ends, by returning or by raising.
\<close>

datatype outcome = Returned | Raised py_exception

record 'b task_body =
  body_init :: 'b
  body_poll :: "'b \<Rightarrow> bool \<Rightarrow> 'b + outcome"

text \<open>
  The body in the source is the polling loop
  \<^verbatim>\<open>while not stop_event.is_set(): time.sleep(0.1)\<close>: one iteration per step; it returns
  once the event is set and never raises.
\<close>

definition run_bot :: "unit task_body" where
  "run_bot = \<lparr>body_init = (), body_poll = (\<lambda>_ is_set. if is_set then Inr Returned else Inl ())\<rparr>"

subsection \<open>Threads and the runtime\<close>

text \<open>
  A thread created by \<^verbatim>\<open>start\<close> is at one of the points of \<^verbatim>\<open>_thread_main\<close>:
  started but still before its first locked region (\<open>Launched\<close>), inside the task body
  (\<open>InBody\<close>), past the body with its outcome but before the second locked region
  (\<open>BodyDone\<close>), past the second locked region but not yet terminated (\<open>Exiting\<close>), or
  terminated (\<open>Dead\<close>). \<^verbatim>\<open>is_alive()\<close> is true at every point but the last.
\<close>

datatype 'b worker = Launched | InBody 'b | BodyDone outcome | Exiting | Dead

fun is_alive :: "'b worker \<Rightarrow> bool" where
  "is_alive Dead = False"
| "is_alive _ = True"

text \<open>
  The fields of \<^verbatim>\<open>BotRuntime\<close>: \<^verbatim>\<open>_thread\<close>, \<^verbatim>\<open>_stop_event\<close> and \<^verbatim>\<open>_status\<close>. A thread
  handle is the index of the thread in \<open>threads\<close>, the table of all \<^verbatim>\<open>Thread\<close> objects
  created so far. There is one \<^verbatim>\<open>Event\<close> object for the life of the runtime: \<^verbatim>\<open>start\<close>
  clears it, \<^verbatim>\<open>stop\<close> sets it.
\<close>

record 'b BotRuntime =
  self_thread :: "nat option"
  self_stop_event :: bool
  self_status :: BotStatus
  threads :: "'b worker list"

definition init :: "'b BotRuntime" where
  "init = \<lparr>self_thread = None, self_stop_event = False,
           self_status = \<lparr>running = False, state = ''idle'', detail = ''not started''\<rparr>,
           threads = []\<rparr>"

text \<open>\<^verbatim>\<open>self._thread and self._thread.is_alive()\<close>\<close>

definition thread_alive :: "'b BotRuntime \<Rightarrow> bool" where
  "thread_alive rt =
     (case self_thread rt of
        None \<Rightarrow> False
      | Some t \<Rightarrow> t < length (threads rt) \<and> is_alive (threads rt ! t))"

definition status :: "'b BotRuntime \<Rightarrow> BotStatus \<times> 'b BotRuntime" where
  "status rt = (self_status rt, rt)"

definition start :: "'b BotRuntime \<Rightarrow> BotStatus \<times> 'b BotRuntime" where
  "start rt =
     (if thread_alive rt then
        (let rt1 = rt\<lparr>self_status :=
                        \<lparr>running = True, state = ''running'', detail = ''already running''\<rparr>\<rparr>
         in (self_status rt1, rt1))
      else
        (let rt1 = rt\<lparr>self_stop_event := False\<rparr>;
             rt2 = rt1\<lparr>self_status :=
                         \<lparr>running = True, state = ''starting'', detail = ''launching thread''\<rparr>\<rparr>;
             t = length (threads rt2);
             rt3 = rt2\<lparr>self_thread := Some t\<rparr>;
             rt4 = rt3\<lparr>threads := threads rt3 @ [Launched]\<rparr>
         in (self_status rt4, rt4)))"

definition stop :: "'b BotRuntime \<Rightarrow> BotStatus \<times> 'b BotRuntime" where
  "stop rt =
     (if \<not> thread_alive rt then
        (let rt1 = rt\<lparr>self_status :=
                        \<lparr>running = False, state = ''stopped'', detail = ''already stopped''\<rparr>\<rparr>
         in (self_status rt1, rt1))
      else
        (let rt1 = rt\<lparr>self_status :=
                        \<lparr>running = True, state = ''stopping'', detail = ''stop requested''\<rparr>\<rparr>;
             rt2 = rt1\<lparr>self_stop_event := True\<rparr>
         in (self_status rt2, rt2)))"

text \<open>
  \<^verbatim>\<open>_thread_main\<close> in its three parts. The first locked region stores the running
  status. The call \<^verbatim>\<open>self._run_bot(self._stop_event)\<close> starts the body, which then polls
  the event of the runtime. The second locked region stores the final status: the
  \<^verbatim>\<open>except Exception\<close> clause catches what derives from \<^verbatim>\<open>Exception\<close> and stores
  \<^verbatim>\<open>repr(e)\<close>. Anything else leaves \<^verbatim>\<open>_thread_main\<close> with the status as it is, and so
  does a \<^verbatim>\<open>repr(e)\<close> that raises inside the handler: the assignment is never reached.
\<close>

definition thread_main_enter :: "'b BotRuntime \<Rightarrow> 'b BotRuntime" where
  "thread_main_enter rt =
     rt\<lparr>self_status := \<lparr>running = True, state = ''running'', detail = ''started''\<rparr>\<rparr>"

definition thread_main_leave :: "outcome \<Rightarrow> 'b BotRuntime \<Rightarrow> 'b BotRuntime" where
  "thread_main_leave out rt =
     (case out of
        Returned \<Rightarrow>
          rt\<lparr>self_status := \<lparr>running = False, state = ''stopped'', detail = ''finished''\<rparr>\<rparr>
      | Raised e \<Rightarrow>
          if derives_Exception e then
            (case repr e of
               Some d \<Rightarrow>
                 rt\<lparr>self_status := \<lparr>running = False, state = ''crashed'', detail = d\<rparr>\<rparr>
             | None \<Rightarrow> rt)
          else rt)"

definition set_worker :: "nat \<Rightarrow> 'b worker \<Rightarrow> 'b BotRuntime \<Rightarrow> 'b BotRuntime" where
  "set_worker t p rt = rt\<lparr>threads := (threads rt)[t := p]\<rparr>"

text \<open>One atomic step of thread \<open>t\<close>; a thread that does not exist or is dead has none.\<close>

definition thread_main :: "'b task_body \<Rightarrow> nat \<Rightarrow> 'b BotRuntime \<Rightarrow> 'b BotRuntime" where
  "thread_main body t rt =
     (if t < length (threads rt) then
        (case threads rt ! t of
           Launched \<Rightarrow> set_worker t (InBody (body_init body)) (thread_main_enter rt)
         | InBody b \<Rightarrow>
             (case body_poll body b (self_stop_event rt) of
                Inl b' \<Rightarrow> set_worker t (InBody b') rt
              | Inr out \<Rightarrow> set_worker t (BodyDone out) rt)
         | BodyDone out \<Rightarrow> set_worker t Exiting (thread_main_leave out rt)
         | Exiting \<Rightarrow> set_worker t Dead rt
         | Dead \<Rightarrow> rt)
      else rt)"

subsection \<open>Schedules\<close>

datatype event = CallStart | CallStop | CallStatus | WorkerStep nat

fun exec :: "'b task_body \<Rightarrow> event \<Rightarrow> 'b BotRuntime \<Rightarrow> 'b BotRuntime" where
  "exec body CallStart rt = snd (start rt)"
| "exec body CallStop rt = snd (stop rt)"
| "exec body CallStatus rt = snd (status rt)"
| "exec body (WorkerStep t) rt = thread_main body t rt"

fun run :: "'b task_body \<Rightarrow> event list \<Rightarrow> 'b BotRuntime \<Rightarrow> 'b BotRuntime" where
  "run body [] rt = rt"
| "run body (ev # evs) rt = run body evs (exec body ev rt)"

subsection \<open>Notions used by the properties\<close>





text \<open>The handles of the threads that are alive.\<close>

definition live_workers :: "'b BotRuntime \<Rightarrow> nat list" where
  "live_workers rt = filter (\<lambda>t. is_alive (threads rt ! t)) [0..<length (threads rt)]"

text \<open>A thread is owned when it exists and, as long as it lives, is the stored handle.\<close>

definition owned :: "nat \<Rightarrow> 'b BotRuntime \<Rightarrow> bool" where
  "owned t rt =
     (t < length (threads rt) \<and> (is_alive (threads rt ! t) \<longrightarrow> self_thread rt = Some t))"

definition launched :: "nat \<Rightarrow> 'b BotRuntime \<Rightarrow> bool" where
  "launched t rt =
     (t < length (threads rt) \<and> (case threads rt ! t of Launched \<Rightarrow> True | _ \<Rightarrow> False))"

text \<open>
  Thread \<open>t\<close> is inside the task body. An event is a call of the task body by thread
  \<open>t\<close> when the thread is not inside the body before it and is inside the body after
  it, whatever the event and wherever the thread was. \<open>invocations\<close> counts these
  calls along a schedule.
\<close>

definition in_body :: "nat \<Rightarrow> 'b BotRuntime \<Rightarrow> bool" where
  "in_body t rt =
     (t < length (threads rt) \<and> (case threads rt ! t of InBody b \<Rightarrow> True | _ \<Rightarrow> False))"

definition enters_body :: "'b task_body \<Rightarrow> event \<Rightarrow> nat \<Rightarrow> 'b BotRuntime \<Rightarrow> bool" where
  "enters_body body ev t rt = (\<not> in_body t rt \<and> in_body t (exec body ev rt))"

fun invocations :: "'b task_body \<Rightarrow> nat \<Rightarrow> event list \<Rightarrow> 'b BotRuntime \<Rightarrow> nat" where
  "invocations body t [] rt = 0"
| "invocations body t (ev # evs) rt =
     (if enters_body body ev t rt then 1 else 0)
       + invocations body t evs (exec body ev rt)"

text \<open>How far a thread has come in \<^verbatim>\<open>_thread_main\<close>.\<close>

fun rank :: "'b worker \<Rightarrow> nat" where
  "rank Launched = 0"
| "rank (InBody b) = 1"
| "rank (BodyDone out) = 2"
| "rank Exiting = 3"
| "rank Dead = 4"

text \<open>
  Cancellation is pending for thread \<open>t\<close>: the thread exists and, as long as it lives,
  it is the stored handle and the event is set.
\<close>

definition cancel_pending :: "nat \<Rightarrow> 'b BotRuntime \<Rightarrow> bool" where
  "cancel_pending t rt =
     (t < length (threads rt) \<and>
      (is_alive (threads rt ! t) \<longrightarrow> self_thread rt = Some t \<and> self_stop_event rt))"


text \<open>\<open>sub\<close> occurs in \<open>s\<close> as a contiguous substring.\<close>

fun starts_with :: "string \<Rightarrow> string \<Rightarrow> bool" where
  "starts_with s [] = True"
| "starts_with [] (c # sub) = False"
| "starts_with (d # s) (c # sub) = (d = c \<and> starts_with s sub)"

fun mentions :: "string \<Rightarrow> string \<Rightarrow> bool" where
  "mentions [] sub = (sub = [])"
| "mentions (d # s) sub = (starts_with (d # s) sub \<or> mentions s sub)"


text \<open>Every thread created so far is owned.\<close>

definition all_owned :: "'b BotRuntime \<Rightarrow> bool" where
  "all_owned rt = (\<forall>u < length (threads rt). owned u rt)"

text \<open>\<^verbatim>\<open>ValueError("boom")\<close>, and a task body that raises it at once.\<close>

definition boom :: py_exception where
  "boom = PyException ''ValueError'' [PyStr ''boom''] True Inherited"

definition boom_body :: "unit task_body" where
  "boom_body = \<lparr>body_init = (), body_poll = (\<lambda>_ _. Inr (Raised boom))\<rparr>"

text \<open>
  A task body that raises a given exception at once, and three exceptions: one of a
  class deriving from \<^verbatim>\<open>Exception\<close> whose \<^verbatim>\<open>__repr__\<close> returns the empty string, one of
  such a class whose \<^verbatim>\<open>__repr__\<close> raises, and \<^verbatim>\<open>SystemExit()\<close>.
\<close>

definition raising :: "py_exception \<Rightarrow> unit task_body" where
  "raising e = \<lparr>body_init = (), body_poll = (\<lambda>_ _. Inr (Raised e))\<rparr>"

text \<open>A task body that returns at once, whatever the event.\<close>

definition returning :: "unit task_body" where
  "returning = \<lparr>body_init = (), body_poll = (\<lambda>_ _. Inr Returned)\<rparr>"

definition quiet :: py_exception where
  "quiet = PyException ''Quiet'' [] True (ReprReturns [])"

definition unprintable :: py_exception where
  "unprintable = PyException ''Unprintable'' [] True ReprRaises"

definition system_exit :: py_exception where
  "system_exit = PyException ''SystemExit'' [] False Inherited"

section \<open>Basic facts\<close>

lemma start_alive: "thread_alive rt \<Longrightarrow> start rt = (\<lparr>running = True, state = ''running'', detail = ''already running''\<rparr>,
   rt\<lparr>self_status := \<lparr>running = True, state = ''running'', detail = ''already running''\<rparr>\<rparr>)"
  by (simp add: start_def)

lemma start_not_alive: "\<not> thread_alive rt \<Longrightarrow> start rt = (\<lparr>running = True, state = ''starting'', detail = ''launching thread''\<rparr>,
   rt\<lparr>self_stop_event := False, self_status := \<lparr>running = True, state = ''starting'', detail = ''launching thread''\<rparr>,
      self_thread := Some (length (threads rt)), threads := threads rt @ [Launched]\<rparr>)"
  by (simp add: start_def)

lemma stop_alive: "thread_alive rt \<Longrightarrow> stop rt = (\<lparr>running = True, state = ''stopping'', detail = ''stop requested''\<rparr>,
   rt\<lparr>self_status := \<lparr>running = True, state = ''stopping'', detail = ''stop requested''\<rparr>, self_stop_event := True\<rparr>)"
  by (simp add: stop_def)

lemma stop_not_alive: "\<not> thread_alive rt \<Longrightarrow> stop rt = (\<lparr>running = False, state = ''stopped'', detail = ''already stopped''\<rparr>,
   rt\<lparr>self_status := \<lparr>running = False, state = ''stopped'', detail = ''already stopped''\<rparr>\<rparr>)"
  by (simp add: stop_def)

lemma starts_with_append: "starts_with (s @ b) s"
  by (induction s) simp_all



lemma digits_lower: "10 ^ k \<le> n \<Longrightarrow> k < length (nat_repr n)"
proof (induction k arbitrary: n)
  case 0
  show ?case by (subst nat_repr.simps) simp
next
  case (Suc k)
  then have "10 ^ k \<le> n div 10" by simp
  then have "k < length (nat_repr (n div 10))" by (rule Suc.IH)
  moreover have "\<not> n < 10"
  proof
    assume "n < 10"
    moreover have "(10::nat) \<le> 10 ^ Suc k" by simp
    ultimately show False using Suc.prems by linarith
  qed
  ultimately show ?case by (subst nat_repr.simps) simp
qed

lemma int_repr_limit: "10 ^ max_str_digits \<le> \<bar>i\<bar> \<Longrightarrow> int_repr i = None"
proof -
  assume "10 ^ max_str_digits \<le> \<bar>i\<bar>"
  then have "10 ^ max_str_digits \<le> nat \<bar>i\<bar>"
    by (simp add: le_nat_iff)
  then have "max_str_digits < length (nat_repr (nat \<bar>i\<bar>))" by (rule digits_lower)
  then show ?thesis by (simp add: int_repr_def Let_def)
qed








lemma thread_main_length: "length (threads (thread_main body t rt)) = length (threads rt)"
  by (simp add: thread_main_def thread_main_enter_def thread_main_leave_def set_worker_def
       split: worker.splits sum.splits outcome.splits option.splits)

lemma thread_main_handle: "self_thread (thread_main body t rt) = self_thread rt"
  by (simp add: thread_main_def thread_main_enter_def thread_main_leave_def set_worker_def
       split: worker.splits sum.splits outcome.splits option.splits)

lemma thread_main_event: "self_stop_event (thread_main body t rt) = self_stop_event rt"
  by (simp add: thread_main_def thread_main_enter_def thread_main_leave_def set_worker_def
       split: worker.splits sum.splits outcome.splits option.splits)

lemma thread_main_other:
  "u \<noteq> t \<Longrightarrow> threads (thread_main body t rt) ! u = threads rt ! u"
  by (simp add: thread_main_def thread_main_enter_def thread_main_leave_def set_worker_def
       split: worker.splits sum.splits outcome.splits option.splits)

lemma thread_main_dead:
  "\<not> is_alive (threads rt ! t) \<Longrightarrow> thread_main body t rt = rt"
  by (cases "threads rt ! t") (simp_all add: thread_main_def)

lemma exec_length: "length (threads rt) \<le> length (threads (exec body ev rt))"
  by (cases ev; cases "thread_alive rt")
     (simp_all add: start_alive start_not_alive stop_alive stop_not_alive status_def thread_main_length)

lemma run_length: "length (threads rt) \<le> length (threads (run body evs rt))"
proof (induction evs arbitrary: rt)
  case Nil
  show ?case by simp
next
  case (Cons ev evs)
  have "length (threads rt) \<le> length (threads (exec body ev rt))"
    by (rule exec_length)
  also have "\<dots> \<le> length (threads (run body evs (exec body ev rt)))"
    by (rule Cons.IH)
  finally show ?case by simp
qed

lemma owned_thread_main: 
  assumes "owned u rt" shows "owned u (thread_main body t rt)"
proof (cases "u = t")
  case False
  with assms show ?thesis
    by (simp add: owned_def thread_main_length thread_main_handle thread_main_other)
next
  case True
  show ?thesis
  proof (cases "is_alive (threads rt ! t)")
    case False
    with assms show ?thesis by (simp add: thread_main_dead)
  next
    case alive: True
    with assms True show ?thesis
      by (simp add: owned_def thread_main_length thread_main_handle)
  qed
qed

lemma owned_exec:
  assumes "owned u rt" shows "owned u (exec body ev rt)"
proof (cases ev)
  case CallStart
  show ?thesis
  proof (cases "thread_alive rt")
    case True
    with assms CallStart show ?thesis by (simp add: start_alive owned_def)
  next
    case False
    with assms have "\<not> is_alive (threads rt ! u)" and "u < length (threads rt)"
      by (auto simp: owned_def thread_alive_def)
    with False CallStart show ?thesis
      by (simp add: start_not_alive owned_def nth_append)
  qed
next
  case CallStop
  with assms show ?thesis
    by (cases "thread_alive rt") (simp_all add: stop_alive stop_not_alive owned_def)
next
  case CallStatus
  with assms show ?thesis by (simp add: status_def)
next
  case (WorkerStep t)
  with assms show ?thesis by (simp add: owned_thread_main)
qed

lemma owned_run: "owned u rt \<Longrightarrow> owned u (run body evs rt)"
  by (induction evs arbitrary: rt) (simp_all add: owned_exec)

lemma owned_spawned: "\<not> thread_alive rt \<Longrightarrow> owned (length (threads rt)) (snd (start rt))"
  by (simp add: start_not_alive owned_def)

lemma all_owned_exec:
  assumes "all_owned rt" shows "all_owned (exec body ev rt)"
  unfolding all_owned_def
proof (intro allI impI)
  fix u assume u: "u < length (threads (exec body ev rt))"
  show "owned u (exec body ev rt)"
  proof (cases "u < length (threads rt)")
    case True
    with assms show ?thesis by (simp add: all_owned_def owned_exec)
  next
    case False
    have grown: "length (threads (exec body ev rt)) \<noteq> length (threads rt)"
      using u False by simp
    then have ev: "ev = CallStart" and na: "\<not> thread_alive rt"
      by (cases ev; cases "thread_alive rt";
          simp add: start_alive stop_alive stop_not_alive status_def thread_main_length)+
    with u False have "u = length (threads rt)"
      by (simp add: start_not_alive)
    with ev na show ?thesis by (simp add: owned_spawned)
  qed
qed

lemma all_owned_run: "all_owned rt \<Longrightarrow> all_owned (run body evs rt)"
  by (induction evs arbitrary: rt) (simp_all add: all_owned_exec)

lemma all_owned_init: "all_owned init"
  by (simp add: all_owned_def init_def)

lemma live_workers_le_1:
  assumes "all_owned rt" shows "length (live_workers rt) \<le> 1"
proof -
  have d: "distinct (live_workers rt)" by (simp add: live_workers_def)
  have "set (live_workers rt) \<subseteq> set_option (self_thread rt)"
    using assms by (auto simp: live_workers_def all_owned_def owned_def)
  then have "card (set (live_workers rt)) \<le> card (set_option (self_thread rt))"
    by (intro card_mono) simp_all
  also have "\<dots> \<le> 1" by (cases "self_thread rt") simp_all
  finally show ?thesis using d by (simp add: distinct_card)
qed

lemma live_workers_alive:
  "all_owned rt \<Longrightarrow> t \<in> set (live_workers rt) \<Longrightarrow> thread_alive rt \<and> self_thread rt = Some t"
  by (auto simp: live_workers_def all_owned_def owned_def thread_alive_def)

lemma not_alive_Dead: "\<not> is_alive p \<Longrightarrow> p = Dead"
  by (cases p) simp_all

lemma thread_main_Launched:
  "launched t rt \<Longrightarrow>
   thread_main body t rt =
     set_worker t (InBody (body_init body))
       (rt\<lparr>self_status := \<lparr>running = True, state = ''running'', detail = ''started''\<rparr>\<rparr>)"
  by (simp add: launched_def thread_main_def thread_main_enter_def split: worker.splits)

lemma thread_main_InBody:
  "t < length (threads rt) \<Longrightarrow> threads rt ! t = InBody b \<Longrightarrow>
   thread_main body t rt =
     set_worker t (case body_poll body b (self_stop_event rt) of
                     Inl b' \<Rightarrow> InBody b' | Inr out \<Rightarrow> BodyDone out) rt"
  by (simp add: thread_main_def split: sum.splits)

lemma thread_main_Returned:
  "t < length (threads rt) \<Longrightarrow> threads rt ! t = BodyDone Returned \<Longrightarrow>
   thread_main body t rt =
     set_worker t Exiting
       (rt\<lparr>self_status := \<lparr>running = False, state = ''stopped'', detail = ''finished''\<rparr>\<rparr>)"
  by (simp add: thread_main_def thread_main_leave_def)



lemma thread_main_Exiting:
  "t < length (threads rt) \<Longrightarrow> threads rt ! t = Exiting \<Longrightarrow>
   thread_main body t rt = set_worker t Dead rt"
  by (simp add: thread_main_def)

lemma thread_main_Dead:
  "t < length (threads rt) \<Longrightarrow> threads rt ! t = Dead \<Longrightarrow> thread_main body t rt = rt"
  by (simp add: thread_main_def)

lemma launched_after_start: "\<not> thread_alive rt \<Longrightarrow> launched (length (threads rt)) (snd (start rt))"
  by (simp add: start_not_alive launched_def)

lemma launched_exec_other:
  assumes "launched t rt" and "ev \<noteq> WorkerStep t" shows "launched t (exec body ev rt)"
proof (cases ev)
  case CallStart
  with assms show ?thesis
    by (cases "thread_alive rt") (simp_all add: start_alive start_not_alive launched_def nth_append)
next
  case CallStop
  with assms show ?thesis
    by (cases "thread_alive rt") (simp_all add: stop_alive stop_not_alive launched_def)
next
  case CallStatus
  with assms show ?thesis by (simp add: status_def)
next
  case (WorkerStep u)
  with assms have "t \<noteq> u" by simp
  with assms WorkerStep show ?thesis
    by (simp add: launched_def thread_main_length thread_main_other)
qed

lemma thread_main_not_Launched:
  "\<not> launched t (thread_main body t rt)"
  by (auto simp: launched_def thread_main_def thread_main_enter_def thread_main_leave_def set_worker_def
       split: worker.splits sum.splits outcome.splits option.splits)

lemma not_launched_exec:
  assumes "t < length (threads rt)" and "\<not> launched t rt" shows "\<not> launched t (exec body ev rt)"
proof (cases ev)
  case CallStart
  with assms show ?thesis
    by (cases "thread_alive rt") (simp_all add: start_alive start_not_alive launched_def nth_append)
next
  case CallStop
  with assms show ?thesis
    by (cases "thread_alive rt") (simp_all add: stop_alive stop_not_alive launched_def)
next
  case CallStatus
  with assms show ?thesis by (simp add: status_def)
next
  case (WorkerStep u)
  show ?thesis
  proof (cases "u = t")
    case True
    with WorkerStep show ?thesis by (simp add: thread_main_not_Launched)
  next
    case False
    with assms WorkerStep show ?thesis
      by (simp add: launched_def thread_main_length thread_main_other)
  qed
qed

lemma exists_exec: "t < length (threads rt) \<Longrightarrow> t < length (threads (exec body ev rt))"
  using exec_length [of rt body ev] by simp

lemma not_launched_run:
  "t < length (threads rt) \<Longrightarrow> \<not> launched t rt \<Longrightarrow> \<not> launched t (run body evs rt)"
proof (induction evs arbitrary: rt)
  case Nil
  then show ?case by simp
next
  case (Cons ev evs)
  have "t < length (threads (exec body ev rt))"
    using Cons.prems(1) by (rule exists_exec)
  moreover have "\<not> launched t (exec body ev rt)"
    using Cons.prems by (rule not_launched_exec)
  ultimately show ?case using Cons.IH by simp
qed

lemma phase_exec_other:
  "t < length (threads rt) \<Longrightarrow> ev \<noteq> WorkerStep t \<Longrightarrow> threads (exec body ev rt) ! t = threads rt ! t"
  by (cases ev; cases "thread_alive rt")
     (simp_all add: start_alive start_not_alive stop_alive stop_not_alive status_def
        thread_main_other nth_append)

lemma enters_body_iff:
  assumes "t < length (threads rt)"
  shows "enters_body body ev t rt = (ev = WorkerStep t \<and> launched t rt)"
proof (cases "ev = WorkerStep t")
  case True
  with assms show ?thesis
    by (auto simp: enters_body_def in_body_def launched_def thread_main_def thread_main_enter_def
          thread_main_leave_def set_worker_def
          split: worker.splits sum.splits outcome.splits option.splits)
next
  case False
  have "t < length (threads (exec body ev rt))" using assms by (rule exists_exec)
  with assms False have "in_body t (exec body ev rt) = in_body t rt"
    by (simp add: in_body_def phase_exec_other)
  with False show ?thesis by (simp add: enters_body_def)
qed

lemma invocations_count:
  "t < length (threads rt) \<Longrightarrow>
   invocations body t evs rt = (if launched t rt \<and> \<not> launched t (run body evs rt) then 1 else 0)"
proof (induction evs arbitrary: rt)
  case Nil
  show ?case by simp
next
  case (Cons ev evs)
  note IH = Cons.IH [OF exists_exec [OF Cons.prems, of body ev]]
  note enters = enters_body_iff [OF Cons.prems, of body ev]
  show ?case
  proof (cases "launched t rt")
    case False
    with Cons.prems have "\<not> launched t (exec body ev rt)" by (rule not_launched_exec)
    with False IH enters show ?thesis by simp
  next
    case True
    show ?thesis
    proof (cases "ev = WorkerStep t")
      case step: True
      then have "\<not> launched t (exec body ev rt)" by (simp add: thread_main_not_Launched)
      moreover from this have "\<not> launched t (run body evs (exec body ev rt))"
        using exists_exec [OF Cons.prems, of body ev] by (simp add: not_launched_run)
      ultimately show ?thesis using True step IH enters by simp
    next
      case False
      with True have "launched t (exec body ev rt)" by (rule launched_exec_other)
      with True False IH enters show ?thesis by simp
    qed
  qed
qed

lemma mentions_here: "starts_with s sub \<Longrightarrow> mentions s sub"
  by (cases s; cases sub) simp_all



lemma mentions_prefix: "mentions (s @ b) s"
  by (simp add: mentions_here starts_with_append)









lemmas eval_defs = start_def stop_def status_def thread_main_def thread_main_enter_def
  thread_main_leave_def set_worker_def init_def thread_alive_def run_bot_def boom_body_def
  boom_def Let_def

lemmas repr_defs = repr_def base_repr_def tuple_repr_def str_repr_def escape_char_def
  is_printable_def raising_def quiet_def unprintable_def system_exit_def returning_def

lemma thread_alive_status_update [simp]:
  "thread_alive (rt\<lparr>self_status := s\<rparr>) = thread_alive rt"
  by (simp add: thread_alive_def split: option.splits)

lemma first_worker_dead:
  assumes na: "\<not> thread_alive rt" and na2: "\<not> thread_alive (run body evs (snd (stop (snd (start rt)))))"
  shows "length (threads rt) < length (threads (run body evs (snd (stop (snd (start rt))))))"
    and "threads (run body evs (snd (stop (snd (start rt))))) ! length (threads rt) = Dead"
proof -
  let ?t = "length (threads rt)"
  let ?rt2 = "run body evs (snd (stop (snd (start rt))))"
  have "owned ?t (snd (start rt))" using na by (rule owned_spawned)
  then have "owned ?t (exec body CallStop (snd (start rt)))" by (rule owned_exec)
  then have "owned ?t ?rt2" by (simp add: owned_run)
  then show "?t < length (threads ?rt2)" by (simp add: owned_def)
  from \<open>owned ?t ?rt2\<close> na2 have "\<not> is_alive (threads ?rt2 ! ?t)"
    by (auto simp: owned_def thread_alive_def)
  then show "threads ?rt2 ! ?t = Dead" by (rule not_alive_Dead)
qed

lemma rank_le_4: "rank p \<le> 4"
  by (cases p) simp_all

lemma rank_4_Dead: "4 \<le> rank p \<Longrightarrow> p = Dead"
  by (cases p) simp_all

lemma cancel_pending_exec:
  assumes "cancel_pending t rt" shows "cancel_pending t (exec body ev rt)"
proof (cases "is_alive (threads rt ! t)")
  case False
  have ex: "t < length (threads rt)" using assms by (simp add: cancel_pending_def)
  have "\<not> is_alive (threads (exec body ev rt) ! t)"
  proof (cases "ev = WorkerStep t")
    case True
    with False show ?thesis by (simp add: thread_main_dead)
  next
    case other: False
    with ex False show ?thesis by (simp add: phase_exec_other)
  qed
  with exists_exec [OF ex, of body ev] show ?thesis by (simp add: cancel_pending_def)
next
  case True
  with assms have h: "t < length (threads rt)" "self_thread rt = Some t" "self_stop_event rt"
    by (simp_all add: cancel_pending_def)
  with True have alive: "thread_alive rt" by (simp add: thread_alive_def)
  show ?thesis
  proof (cases ev)
    case CallStart
    with h alive show ?thesis by (simp add: start_alive cancel_pending_def)
  next
    case CallStop
    with h alive show ?thesis by (simp add: stop_alive cancel_pending_def)
  next
    case CallStatus
    with assms show ?thesis by (simp add: status_def)
  next
    case (WorkerStep u)
    with h show ?thesis
      by (simp add: cancel_pending_def thread_main_length thread_main_handle thread_main_event)
  qed
qed

lemma cancel_pending_run: "cancel_pending t rt \<Longrightarrow> cancel_pending t (run body evs rt)"
  by (induction evs arbitrary: rt) (simp_all add: cancel_pending_exec)

lemma cooperative_step:
  assumes coop: "\<forall>b. \<exists>out. body_poll body b True = Inr out"
    and cp: "cancel_pending t rt"
  shows "min 4 (Suc (rank (threads rt ! t))) \<le> rank (threads (thread_main body t rt) ! t)"
proof (cases "threads rt ! t")
  case (InBody b)
  from coop obtain out where "body_poll body b True = Inr out" by blast
  with InBody cp show ?thesis
    by (simp add: cancel_pending_def thread_main_def set_worker_def)
next
  case Launched
  with cp show ?thesis
    by (simp add: cancel_pending_def thread_main_def thread_main_enter_def set_worker_def)
next
  case (BodyDone out)
  with cp show ?thesis
    by (simp add: cancel_pending_def thread_main_def thread_main_leave_def set_worker_def
          split: outcome.splits option.splits)
next
  case Exiting
  with cp show ?thesis
    by (simp add: cancel_pending_def thread_main_def set_worker_def)
next
  case Dead
  with cp show ?thesis
    by (simp add: cancel_pending_def thread_main_def)
qed

lemma cooperative_progress:
  assumes coop: "\<forall>b. \<exists>out. body_poll body b True = Inr out"
  shows "cancel_pending t rt \<Longrightarrow>
         min 4 (rank (threads rt ! t) + count_list evs (WorkerStep t))
           \<le> rank (threads (run body evs rt) ! t)"
proof (induction evs arbitrary: rt)
  case Nil
  show ?case by simp
next
  case (Cons ev evs)
  let ?rt' = "exec body ev rt"
  have cp': "cancel_pending t ?rt'" using Cons.prems by (rule cancel_pending_exec)
  have ex: "t < length (threads rt)" using Cons.prems by (simp add: cancel_pending_def)
  have step: "min 4 (rank (threads rt ! t) + (if ev = WorkerStep t then 1 else 0))
                \<le> rank (threads ?rt' ! t)"
  proof (cases "ev = WorkerStep t")
    case True
    with cooperative_step [OF coop Cons.prems] show ?thesis by simp
  next
    case False
    with ex show ?thesis by (simp add: phase_exec_other)
  qed
  have "min 4 (rank (threads rt ! t) + count_list (ev # evs) (WorkerStep t))
          \<le> min 4 (rank (threads ?rt' ! t) + count_list evs (WorkerStep t))"
  proof -
    have cnt: "count_list (ev # evs) (WorkerStep t) =
                 count_list evs (WorkerStep t) + (if ev = WorkerStep t then 1 else 0)"
      by simp
    have mono: "min 4 (r + (c + d)) \<le> min 4 (r' + c)" if "min 4 (r + d) \<le> r'"
      for r r' c d :: nat
      using that by arith
    show ?thesis unfolding cnt using step by (rule mono)
  qed
  also have "\<dots> \<le> rank (threads (run body evs ?rt') ! t)"
    using cp' by (rule Cons.IH)
  finally show ?case by simp
qed

lemma cooperative_exit:
  assumes "\<forall>b. \<exists>out. body_poll body b True = Inr out" and "cancel_pending t rt"
    and "4 \<le> count_list evs (WorkerStep t)"
  shows "threads (run body evs rt) ! t = Dead"
proof -
  have "4 \<le> min 4 (rank (threads rt ! t) + count_list evs (WorkerStep t))"
    using assms(3) by simp
  also have "\<dots> \<le> rank (threads (run body evs rt) ! t)"
    using assms(1,2) by (rule cooperative_progress)
  finally show ?thesis by (rule rank_4_Dead)
qed

section \<open>Properties\<close>




text \<open>
  C2: when the stored thread is alive, \<^verbatim>\<open>start()\<close> stores and returns
  \<^verbatim>\<open>BotStatus(True, "running", "already running")\<close> and changes nothing else: no thread
  is created. After every schedule of calls and worker steps at most one thread is
  alive, and a \<^verbatim>\<open>start()\<close> issued while one is alive leaves the live threads as they
  are.
\<close>

theorem start_while_alive:
  "(thread_alive rt \<longrightarrow>
      start rt = (\<lparr>running = True, state = ''running'', detail = ''already running''\<rparr>,
                  rt\<lparr>self_status := \<lparr>running = True, state = ''running'', detail = ''already running''\<rparr>\<rparr>) \<and>
      threads (snd (start rt)) = threads rt \<and> self_thread (snd (start rt)) = self_thread rt) \<and>
   length (live_workers (run body evs init)) \<le> 1 \<and>
   (live_workers (run body evs init) \<noteq> [] \<longrightarrow>
      live_workers (snd (start (run body evs init))) = live_workers (run body evs init))"
proof -
  have ao: "all_owned (run body evs init)"
    by (simp add: all_owned_run all_owned_init)
  have "thread_alive (run body evs init)" if "live_workers (run body evs init) \<noteq> []"
  proof -
    from that obtain t where "t \<in> set (live_workers (run body evs init))"
      by (cases "live_workers (run body evs init)") auto
    with ao show ?thesis by (simp add: live_workers_alive)
  qed
  then have same: "live_workers (run body evs init) \<noteq> [] \<longrightarrow>
      live_workers (snd (start (run body evs init))) = live_workers (run body evs init)"
    by (simp add: start_alive live_workers_def)
  have le: "length (live_workers (run body evs init)) \<le> 1"
    using ao by (rule live_workers_le_1)
  have noop: "thread_alive rt \<longrightarrow>
      start rt = (\<lparr>running = True, state = ''running'', detail = ''already running''\<rparr>,
                  rt\<lparr>self_status := \<lparr>running = True, state = ''running'', detail = ''already running''\<rparr>\<rparr>) \<and>
      threads (snd (start rt)) = threads rt \<and> self_thread (snd (start rt)) = self_thread rt"
    by (simp add: start_alive)
  from noop le same show ?thesis by blast
qed

theorem start_while_alive_witness:
  "thread_alive (snd (start (init :: unit BotRuntime))) \<and>
   fst (start (snd (start (init :: unit BotRuntime)))) =
     \<lparr>running = True, state = ''running'', detail = ''already running''\<rparr> \<and>
   live_workers (run run_bot [CallStart] init) = [0] \<and>
   live_workers (snd (start (run run_bot [CallStart] init))) = [0]"
  using start_while_alive [of "snd (start (init :: unit BotRuntime))" run_bot "[CallStart]"]
  by (simp add: eval_defs live_workers_def)

text \<open>
  C3, as stated, fails on two counts. The status \<^verbatim>\<open>start()\<close> stores and returns when no
  thread is alive has the detail \<^verbatim>\<open>"launching thread"\<close>, not \<^verbatim>\<open>"launching"\<close>. And
  \<^verbatim>\<open>start()\<close>, \<^verbatim>\<open>stop()\<close>, \<^verbatim>\<open>start()\<close> in a row create one thread only: the second
  \<^verbatim>\<open>start()\<close> finds the first thread alive.
\<close>

theorem start_launching_counterexample:
  "\<not> thread_alive (init :: unit BotRuntime) \<and>
   fst (start (init :: unit BotRuntime)) \<noteq> \<lparr>running = True, state = ''starting'', detail = ''launching''\<rparr> \<and>
   threads (run run_bot [CallStart, CallStop, CallStart] init) = [Launched]"
  by (simp add: eval_defs)

text \<open>
  C3, amended: when no stored thread is alive, \<^verbatim>\<open>start()\<close> clears the event, stores and
  returns \<^verbatim>\<open>BotStatus(True, "starting", "launching thread")\<close>, creates exactly one new
  thread, still before its first step, and stores its handle. If after a following
  \<^verbatim>\<open>stop()\<close> and any further schedule the stored thread is no longer alive, the next
  \<^verbatim>\<open>start()\<close> does the same again: the event is cleared once more, the new thread is
  another one than the first, and the first is dead.
\<close>

theorem start_while_not_alive:
  assumes "\<not> thread_alive rt"
  shows "start rt =
           (\<lparr>running = True, state = ''starting'', detail = ''launching thread''\<rparr>,
            rt\<lparr>self_stop_event := False,
               self_status := \<lparr>running = True, state = ''starting'', detail = ''launching thread''\<rparr>,
               self_thread := Some (length (threads rt)),
               threads := threads rt @ [Launched]\<rparr>) \<and>
         (\<not> thread_alive (run body evs (snd (stop (snd (start rt))))) \<longrightarrow>
            length (threads rt) < length (threads (run body evs (snd (stop (snd (start rt)))))) \<and>
            start (run body evs (snd (stop (snd (start rt))))) =
              (\<lparr>running = True, state = ''starting'', detail = ''launching thread''\<rparr>,
               (run body evs (snd (stop (snd (start rt)))))
                 \<lparr>self_stop_event := False,
                  self_status := \<lparr>running = True, state = ''starting'', detail = ''launching thread''\<rparr>,
                  self_thread := Some (length (threads (run body evs (snd (stop (snd (start rt))))))),
                  threads := threads (run body evs (snd (stop (snd (start rt))))) @ [Launched]\<rparr>) \<and>
            threads (snd (start (run body evs (snd (stop (snd (start rt))))))) ! length (threads rt) = Dead)"
proof (intro conjI impI)
  show "start rt =
           (\<lparr>running = True, state = ''starting'', detail = ''launching thread''\<rparr>,
            rt\<lparr>self_stop_event := False,
               self_status := \<lparr>running = True, state = ''starting'', detail = ''launching thread''\<rparr>,
               self_thread := Some (length (threads rt)),
               threads := threads rt @ [Launched]\<rparr>)"
    using assms by (rule start_not_alive)
next
  let ?rt2 = "run body evs (snd (stop (snd (start rt))))"
  assume na2: "\<not> thread_alive ?rt2"
  show "length (threads rt) < length (threads ?rt2)"
    using assms na2 by (rule first_worker_dead)
  show "start ?rt2 =
              (\<lparr>running = True, state = ''starting'', detail = ''launching thread''\<rparr>,
               ?rt2
                 \<lparr>self_stop_event := False,
                  self_status := \<lparr>running = True, state = ''starting'', detail = ''launching thread''\<rparr>,
                  self_thread := Some (length (threads ?rt2)),
                  threads := threads ?rt2 @ [Launched]\<rparr>)"
    using na2 by (rule start_not_alive)
  show "threads (snd (start ?rt2)) ! length (threads rt) = Dead"
    using first_worker_dead [OF assms na2] na2 by (simp add: start_not_alive nth_append)
qed

theorem start_while_not_alive_witness:
  "\<not> thread_alive (init :: unit BotRuntime) \<and>
   \<not> thread_alive (run run_bot [WorkerStep 0, WorkerStep 0, WorkerStep 0, WorkerStep 0]
                     (snd (stop (snd (start init))))) \<and>
   fst (start (init :: unit BotRuntime)) =
     \<lparr>running = True, state = ''starting'', detail = ''launching thread''\<rparr> \<and>
   threads (snd (start (run run_bot [WorkerStep 0, WorkerStep 0, WorkerStep 0, WorkerStep 0]
                     (snd (stop (snd (start init))))))) = [Dead, Launched]"
  using start_while_not_alive [of "init :: unit BotRuntime" run_bot
          "[WorkerStep 0, WorkerStep 0, WorkerStep 0, WorkerStep 0]"]
  by (simp add: eval_defs)

text \<open>
  C4: when no stored thread is alive, \<^verbatim>\<open>stop()\<close> stores and returns
  \<^verbatim>\<open>BotStatus(False, "stopped", "already stopped")\<close> and changes nothing else; the
  event in particular is as it was. The result is a status: \<^verbatim>\<open>stop\<close> has no failure to
  report.
\<close>

theorem stop_while_not_alive:
  "\<not> thread_alive rt \<Longrightarrow>
   stop rt =
     (\<lparr>running = False, state = ''stopped'', detail = ''already stopped''\<rparr>,
      rt\<lparr>self_status := \<lparr>running = False, state = ''stopped'', detail = ''already stopped''\<rparr>\<rparr>) \<and>
   self_stop_event (snd (stop rt)) = self_stop_event rt"
  by (simp add: stop_not_alive)

theorem stop_while_not_alive_witness:
  "\<not> thread_alive (init :: unit BotRuntime) \<and>
   stop (init :: unit BotRuntime) =
     (\<lparr>running = False, state = ''stopped'', detail = ''already stopped''\<rparr>,
      init\<lparr>self_status := \<lparr>running = False, state = ''stopped'', detail = ''already stopped''\<rparr>\<rparr>)"
  using stop_while_not_alive [of "init :: unit BotRuntime"]
  by (simp add: init_def thread_alive_def)

text \<open>
  C5: when the stored thread is alive, \<^verbatim>\<open>stop()\<close> stores and returns
  \<^verbatim>\<open>BotStatus(True, "stopping", "stop requested")\<close> and sets the event, in one step; the
  handle and the threads are as they were.
\<close>

theorem stop_while_alive:
  "thread_alive rt \<Longrightarrow>
   stop rt =
     (\<lparr>running = True, state = ''stopping'', detail = ''stop requested''\<rparr>,
      rt\<lparr>self_status := \<lparr>running = True, state = ''stopping'', detail = ''stop requested''\<rparr>,
         self_stop_event := True\<rparr>) \<and>
   self_thread (snd (stop rt)) = self_thread rt \<and>
   threads (snd (stop rt)) = threads rt"
  by (simp add: stop_alive)

theorem stop_while_alive_witness:
  "thread_alive (snd (start (init :: unit BotRuntime))) \<and>
   fst (stop (snd (start (init :: unit BotRuntime)))) =
     \<lparr>running = True, state = ''stopping'', detail = ''stop requested''\<rparr> \<and>
   self_stop_event (snd (stop (snd (start (init :: unit BotRuntime))))) \<and>
   self_thread (snd (stop (snd (start (init :: unit BotRuntime))))) = Some 0"
  using stop_while_alive [of "snd (start (init :: unit BotRuntime))"]
  by (simp add: eval_defs)

text \<open>
  C6: the thread created by \<^verbatim>\<open>start()\<close> begins before its first step. Its first step
  stores \<^verbatim>\<open>BotStatus(True, "running", "started")\<close> and enters the task body; each step
  of the body is given the event of the runtime; when the body has returned, the next
  step stores \<^verbatim>\<open>BotStatus(False, "stopped", "finished")\<close>; the step after that ends the
  thread, and a dead thread does nothing. Whatever the event, a thread gets inside the
  body only by its own first step, so along every schedule the thread calls the body
  exactly once if it has left its starting point, and not at all before.
\<close>

theorem worker_normal_run:
  "(\<not> thread_alive rt0 \<longrightarrow>
      launched (length (threads rt0)) (snd (start rt0)) \<and>
      invocations body (length (threads rt0)) evs (snd (start rt0)) =
        (if launched (length (threads rt0)) (run body evs (snd (start rt0))) then 0 else 1)) \<and>
   (launched t rt \<longrightarrow>
      thread_main body t rt =
        set_worker t (InBody (body_init body))
          (rt\<lparr>self_status := \<lparr>running = True, state = ''running'', detail = ''started''\<rparr>\<rparr>)) \<and>
   (t < length (threads rt) \<and> threads rt ! t = InBody b \<longrightarrow>
      thread_main body t rt =
        set_worker t (case body_poll body b (self_stop_event rt) of
                        Inl b' \<Rightarrow> InBody b' | Inr out \<Rightarrow> BodyDone out) rt) \<and>
   (t < length (threads rt) \<and> threads rt ! t = BodyDone Returned \<longrightarrow>
      thread_main body t rt =
        set_worker t Exiting
          (rt\<lparr>self_status := \<lparr>running = False, state = ''stopped'', detail = ''finished''\<rparr>\<rparr>)) \<and>
   (t < length (threads rt) \<and> threads rt ! t = Exiting \<longrightarrow>
      thread_main body t rt = set_worker t Dead rt) \<and>
   (t < length (threads rt) \<and> threads rt ! t = Dead \<longrightarrow> thread_main body t rt = rt) \<and>
   (t < length (threads rt) \<and> \<not> in_body t rt \<and> in_body t (exec body ev rt) \<longrightarrow>
      ev = WorkerStep t \<and> launched t rt)"
proof (intro conjI impI)
  assume na: "\<not> thread_alive rt0"
  then show l: "launched (length (threads rt0)) (snd (start rt0))"
    by (rule launched_after_start)
  then have "length (threads rt0) < length (threads (snd (start rt0)))"
    by (simp add: launched_def)
  from invocations_count [OF this, of body evs] l
  show "invocations body (length (threads rt0)) evs (snd (start rt0)) =
        (if launched (length (threads rt0)) (run body evs (snd (start rt0))) then 0 else 1)"
    by simp
next
  assume h: "t < length (threads rt) \<and> \<not> in_body t rt \<and> in_body t (exec body ev rt)"
  then have "enters_body body ev t rt" by (simp add: enters_body_def)
  with h have "ev = WorkerStep t \<and> launched t rt" by (simp add: enters_body_iff)
  then show "ev = WorkerStep t" and "launched t rt" by simp_all
qed (simp_all add: thread_main_Launched thread_main_InBody thread_main_Returned
       thread_main_Exiting thread_main_Dead)

theorem worker_normal_run_witness:
  "\<not> thread_alive (init :: unit BotRuntime) \<and>
   launched 0 (snd (start (init :: unit BotRuntime))) \<and>
   \<not> in_body 0 (snd (start (init :: unit BotRuntime))) \<and>
   in_body 0 (exec run_bot (WorkerStep 0) (snd (start init))) \<and>
   threads (run run_bot [CallStart, WorkerStep 0] init) ! 0 = InBody () \<and>
   threads (run run_bot [CallStart, WorkerStep 0, CallStop, WorkerStep 0] init) ! 0 = BodyDone Returned \<and>
   threads (run run_bot [CallStart, WorkerStep 0, CallStop, WorkerStep 0, WorkerStep 0] init) ! 0 = Exiting \<and>
   threads (run run_bot [CallStart, WorkerStep 0, CallStop, WorkerStep 0, WorkerStep 0, WorkerStep 0] init) ! 0 = Dead \<and>
   self_status (run run_bot [CallStart, WorkerStep 0] init) =
     \<lparr>running = True, state = ''running'', detail = ''started''\<rparr> \<and>
   self_status (run run_bot [CallStart, WorkerStep 0, CallStop, WorkerStep 0, WorkerStep 0] init) =
     \<lparr>running = False, state = ''stopped'', detail = ''finished''\<rparr> \<and>
   run run_bot [CallStart, WorkerStep 0, CallStop, WorkerStep 0, WorkerStep 0, WorkerStep 0, WorkerStep 0] init =
     run run_bot [CallStart, WorkerStep 0, CallStop, WorkerStep 0, WorkerStep 0, WorkerStep 0] init \<and>
   invocations run_bot 0
     [WorkerStep 0, CallStop, WorkerStep 0, WorkerStep 0, WorkerStep 0, WorkerStep 0, CallStop]
     (snd (start init)) = 1 \<and>
   threads (run returning [WorkerStep 0, WorkerStep 0, WorkerStep 0, WorkerStep 0, WorkerStep 0]
              (snd (start init))) = [Dead] \<and>
   \<not> self_stop_event (run returning [WorkerStep 0, WorkerStep 0, WorkerStep 0, WorkerStep 0, WorkerStep 0]
              (snd (start init))) \<and>
   invocations returning 0 [WorkerStep 0, WorkerStep 0, WorkerStep 0, WorkerStep 0, WorkerStep 0]
     (snd (start init)) = 1"
  using worker_normal_run [where ?rt0.0 = "init :: unit BotRuntime" and body = returning and t = 0
          and evs = "[WorkerStep 0, WorkerStep 0, WorkerStep 0, WorkerStep 0, WorkerStep 0]"
          and rt = "snd (start init)" and ev = CallStatus and b = "()"]
        worker_normal_run [where ?rt0.0 = "init :: unit BotRuntime" and body = run_bot and t = 0
          and evs = "[WorkerStep 0, CallStop, WorkerStep 0, WorkerStep 0, WorkerStep 0, WorkerStep 0, CallStop]"
          and rt = "snd (start init)" and ev = "WorkerStep 0" and b = "()"]
        worker_normal_run [where ?rt0.0 = "init :: unit BotRuntime" and body = run_bot and t = 0
          and evs = "[]" and rt = "run run_bot [CallStart, WorkerStep 0] init"
          and ev = CallStatus and b = "()"]
        worker_normal_run [where ?rt0.0 = "init :: unit BotRuntime" and body = run_bot and t = 0
          and evs = "[]" and rt = "run run_bot [CallStart, WorkerStep 0, CallStop, WorkerStep 0] init"
          and ev = CallStatus and b = "()"]
        worker_normal_run [where ?rt0.0 = "init :: unit BotRuntime" and body = run_bot and t = 0
          and evs = "[]"
          and rt = "run run_bot [CallStart, WorkerStep 0, CallStop, WorkerStep 0, WorkerStep 0] init"
          and ev = CallStatus and b = "()"]
        worker_normal_run [where ?rt0.0 = "init :: unit BotRuntime" and body = run_bot and t = 0
          and evs = "[]"
          and rt = "run run_bot [CallStart, WorkerStep 0, CallStop, WorkerStep 0, WorkerStep 0, WorkerStep 0] init"
          and ev = CallStatus and b = "()"]
  by (simp add: eval_defs returning_def launched_def in_body_def)




text \<open>
  C8: \<^verbatim>\<open>status()\<close> returns the stored status and leaves every field of the runtime, and
  every thread, as it was.
\<close>

theorem status_snapshot_no_effect:
  "status rt = (self_status rt, rt) \<and> exec body CallStatus rt = rt"
  by (simp add: status_def)

text \<open>
  C9: a \<^verbatim>\<open>start()\<close> issued while the stored thread is alive changes the status only:
  event, handle and threads are as they were, and the status now reads
  \<^verbatim>\<open>running\<close>. If the event was set, it stays set for as long as that thread lives,
  along every schedule; and if the body ends at the first poll that sees the event set,
  as the polling loop of the source does, the thread is dead after four of its steps.
\<close>

theorem noop_start_keeps_cancellation:
  assumes alive: "thread_alive rt" and handle: "self_thread rt = Some t"
  shows "start rt =
           (\<lparr>running = True, state = ''running'', detail = ''already running''\<rparr>,
            rt\<lparr>self_status := \<lparr>running = True, state = ''running'', detail = ''already running''\<rparr>\<rparr>) \<and>
         self_stop_event (snd (start rt)) = self_stop_event rt \<and>
         self_thread (snd (start rt)) = self_thread rt \<and>
         threads (snd (start rt)) = threads rt \<and>
         (self_stop_event rt \<longrightarrow>
            cancel_pending t (run body evs (snd (start rt))) \<and>
            ((\<forall>b. \<exists>out. body_poll body b True = Inr out) \<and> 4 \<le> count_list evs (WorkerStep t) \<longrightarrow>
               threads (run body evs (snd (start rt))) ! t = Dead))"
proof -
  have eq: "start rt =
           (\<lparr>running = True, state = ''running'', detail = ''already running''\<rparr>,
            rt\<lparr>self_status := \<lparr>running = True, state = ''running'', detail = ''already running''\<rparr>\<rparr>)"
    using alive by (rule start_alive)
  have cp: "cancel_pending t (snd (start rt))" if "self_stop_event rt"
    using that alive handle by (simp add: eq cancel_pending_def thread_alive_def)
  have "cancel_pending t (run body evs (snd (start rt)))" if "self_stop_event rt"
    using cp [OF that] by (rule cancel_pending_run)
  moreover have "threads (run body evs (snd (start rt))) ! t = Dead"
    if "self_stop_event rt" "\<forall>b. \<exists>out. body_poll body b True = Inr out"
       "4 \<le> count_list evs (WorkerStep t)"
    using that(2) cp [OF that(1)] that(3) by (rule cooperative_exit)
  ultimately show ?thesis by (simp add: eq)
qed

theorem noop_start_keeps_cancellation_witness:
  "thread_alive (run run_bot [CallStart, CallStop] init) \<and>
   self_thread (run run_bot [CallStart, CallStop] init) = Some 0 \<and>
   self_stop_event (run run_bot [CallStart, CallStop] init) \<and>
   self_status (run run_bot [CallStart, CallStop] init) =
     \<lparr>running = True, state = ''stopping'', detail = ''stop requested''\<rparr> \<and>
   (\<forall>b. \<exists>out. body_poll run_bot b True = Inr out) \<and>
   4 \<le> count_list [WorkerStep 0, WorkerStep 0, WorkerStep 0, WorkerStep 0] (WorkerStep 0) \<and>
   fst (start (run run_bot [CallStart, CallStop] init)) =
     \<lparr>running = True, state = ''running'', detail = ''already running''\<rparr> \<and>
   self_stop_event (snd (start (run run_bot [CallStart, CallStop] init))) \<and>
   threads (run run_bot [WorkerStep 0, WorkerStep 0, WorkerStep 0, WorkerStep 0]
              (snd (start (run run_bot [CallStart, CallStop] init)))) ! 0 = Dead"
  using noop_start_keeps_cancellation
          [where rt = "run run_bot [CallStart, CallStop] init" and t = 0 and body = run_bot
             and evs = "[WorkerStep 0, WorkerStep 0, WorkerStep 0, WorkerStep 0]"]
  by (simp add: eval_defs)

text \<open>
  C10: when no stored thread is alive, \<^verbatim>\<open>stop()\<close> replaces the stored status whatever it
  was. A crashed status with any detail is replaced by
  \<^verbatim>\<open>BotStatus(False, "stopped", "already stopped")\<close>, which is what \<^verbatim>\<open>status()\<close> returns
  next; and the runtime after the call, and so every later run, is the same whatever
  the status had been before.
\<close>

theorem noop_stop_forgets_crash:
  "\<not> thread_alive rt \<Longrightarrow>
   stop rt =
     (\<lparr>running = False, state = ''stopped'', detail = ''already stopped''\<rparr>,
      rt\<lparr>self_status := \<lparr>running = False, state = ''stopped'', detail = ''already stopped''\<rparr>\<rparr>) \<and>
   fst (status (snd (stop rt))) =
     \<lparr>running = False, state = ''stopped'', detail = ''already stopped''\<rparr> \<and>
   fst (status (snd (stop (rt\<lparr>self_status :=
       \<lparr>running = False, state = ''crashed'', detail = d\<rparr>\<rparr>)))) =
     \<lparr>running = False, state = ''stopped'', detail = ''already stopped''\<rparr> \<and>
   snd (stop (rt\<lparr>self_status := s\<rparr>)) = snd (stop rt) \<and>
   run body evs (snd (stop (rt\<lparr>self_status := s\<rparr>))) = run body evs (snd (stop rt))"
  by (auto simp: stop_not_alive status_def)

theorem noop_stop_forgets_crash_witness:
  "\<not> thread_alive (run boom_body [CallStart, WorkerStep 0, WorkerStep 0, WorkerStep 0, WorkerStep 0] init) \<and>
   self_status (run boom_body [CallStart, WorkerStep 0, WorkerStep 0, WorkerStep 0, WorkerStep 0] init) =
     \<lparr>running = False, state = ''crashed'', detail = ''ValueError('' @ [CHR 0x27] @ ''boom'' @ [CHR 0x27] @ '')''\<rparr> \<and>
   fst (status (snd (stop
     (run boom_body [CallStart, WorkerStep 0, WorkerStep 0, WorkerStep 0, WorkerStep 0] init)))) =
     \<lparr>running = False, state = ''stopped'', detail = ''already stopped''\<rparr>"
  using noop_stop_forgets_crash
          [where rt = "run boom_body [CallStart, WorkerStep 0, WorkerStep 0, WorkerStep 0, WorkerStep 0] init"
             and body = boom_body and evs = "[]"]
  by (simp add: eval_defs repr_defs)

end
